theory Spec2Isabelle
  imports Main "HOL-Library.Word"
begin

unbundle bit_operations_syntax

section \<open>Canonical Huffman trees of the bzip2 decoder (huffman.go)\<close>

subsection \<open>Data model\<close>

text \<open>
  Go's \<open>uint8\<close>, \<open>uint16\<close>, \<open>uint32\<close> and \<open>uint64\<close> are words of that width.
  The slice indices \<open>l\<close>, \<open>r\<close> and \<open>firstRightIndex\<close> are Go \<open>int\<close>s and may
  become negative, so they are \<open>int\<close>; \<open>nextNode\<close> only counts up from 0 and is
  checked against the length of \<open>nodes\<close> before every use, so it is a \<open>nat\<close>.
  A run-time panic and a returned \<open>StructuralError\<close> are both values of \<open>error\<close>.
\<close>

datatype error =
    StructuralError string
  | Panic string
  | UnexpectedEOF

record huffmanNode =
  left :: "16 word"
  right :: "16 word"
  leftValue :: "16 word"
  rightValue :: "16 word"

record huffmanTree =
  nodes :: "huffmanNode list"
  nextNode :: nat

definition invalidNodeValue :: "16 word" where
  "invalidNodeValue = 0xffff"

text \<open>The zero value of a \<open>huffmanNode\<close>, as \<open>make\<close> allocates it.\<close>

definition zeroNode :: huffmanNode where
  "zeroNode = \<lparr>left = 0, right = 0, leftValue = 0, rightValue = 0\<rparr>"

text \<open>\<open>huffmanSymbolLengthPair\<close>; its fields \<open>value\<close> and \<open>length\<close> are \<open>pvalue\<close> and \<open>plength\<close>.\<close>

record huffmanSymbolLengthPair =
  pvalue :: "16 word"
  plength :: "8 word"

text \<open>\<open>huffmanCodes\<close>, a structure of three parallel slices; its field \<open>value\<close> is \<open>cvalue\<close>.\<close>

record huffmanCodes =
  code :: "32 word list"
  codeLen :: "8 word list"
  cvalue :: "16 word list"

text \<open>
  Go's \<open>x << s\<close> on a \<open>uint32\<close> with an unsigned shift count: the bits shifted out are
  lost, and a count of 32 or more gives 0.
\<close>

definition shiftLeft32 :: "32 word \<Rightarrow> nat \<Rightarrow> 32 word" where
  "shiftLeft32 x s = (if 32 \<le> s then 0 else push_bit s x)"

subsection \<open>Sorting\<close>

text \<open>
  Modelled from the spec: package \<open>sort\<close> (\<open>sort.Slice\<close>, \<open>sort.Sort\<close>) is not part of
  the source file. The spec asks for a stable sort by the comparison the caller passes; this
  is insertion sort by a \<open>less\<close> function, which keeps the order of elements that
  \<open>less\<close> does not separate.
\<close>

fun insertBy :: "('a \<Rightarrow> 'a \<Rightarrow> bool) \<Rightarrow> 'a \<Rightarrow> 'a list \<Rightarrow> 'a list" where
  "insertBy lt x [] = [x]"
| "insertBy lt x (y # ys) = (if lt y x then y # insertBy lt x ys else x # y # ys)"

definition sortBy :: "('a \<Rightarrow> 'a \<Rightarrow> bool) \<Rightarrow> 'a list \<Rightarrow> 'a list" where
  "sortBy lt xs = foldr (insertBy lt) xs []"

text \<open>The comparison function given to \<open>sort.Slice\<close> (lines 103 to 114).\<close>

definition pairLess :: "huffmanSymbolLengthPair \<Rightarrow> huffmanSymbolLengthPair \<Rightarrow> bool" where
  "pairLess a b =
     (if plength a < plength b then True
      else if plength a > plength b then False
      else if pvalue a < pvalue b then True
      else False)"

text \<open>
  \<open>huffmanCodes.Less\<close> compares the codes; \<open>huffmanCodes.Swap\<close> moves the three slices
  together, so \<open>sort.Sort\<close> sorts the triples (code, codeLen, value) by their code.
\<close>

definition codesLess :: "32 word \<times> 8 word \<times> 16 word \<Rightarrow> 32 word \<times> 8 word \<times> 16 word \<Rightarrow> bool" where
  "codesLess a b = (fst a < fst b)"

definition sortCodes :: "huffmanCodes \<Rightarrow> huffmanCodes" where
  "sortCodes codes =
     (let ts = sortBy codesLess (zip (code codes) (zip (codeLen codes) (cvalue codes)))
      in \<lparr>code = map fst ts, codeLen = map (fst \<circ> snd) ts, cvalue = map (snd \<circ> snd) ts\<rparr>)"

subsection \<open>buildHuffmanNode\<close>

text \<open>
  The search loop of lines 183 to 190: the first index \<open>i\<close> in \<open>[l, r)\<close> whose code has
  the tested bit, or the initial value \<open>dflt\<close> of \<open>firstRightIndex\<close> (the source passes
  \<open>r - l\<close>). Reading \<open>codes.code[i]\<close> out of range panics.
\<close>

function findFirstRight :: "huffmanCodes \<Rightarrow> 32 word \<Rightarrow> int \<Rightarrow> int \<Rightarrow> int \<Rightarrow> error + int" where
  "findFirstRight codes test i r dflt =
     (if i < r then
        (if i < 0 \<or> int (length (code codes)) \<le> i then Inl (Panic ''index out of range'')
         else if (code codes ! nat i) AND test \<noteq> 0 then Inr i
         else findFirstRight codes test (i + 1) r dflt)
      else Inr dflt)"
  by pat_completeness auto
termination
  by (relation "measure (\<lambda>(codes, test, i, r, dflt). nat (r - i))") auto

text \<open>The two leaf assignments (lines 232, 233 and 244, 245) and the two child assignments.\<close>

definition setLeftLeaf :: "huffmanTree \<Rightarrow> nat \<Rightarrow> 16 word \<Rightarrow> huffmanTree" where
  "setLeftLeaf t node v =
     t\<lparr>nodes := (nodes t)[node := (nodes t ! node)\<lparr>left := invalidNodeValue, leftValue := v\<rparr>]\<rparr>"

definition setRightLeaf :: "huffmanTree \<Rightarrow> nat \<Rightarrow> 16 word \<Rightarrow> huffmanTree" where
  "setRightLeaf t node v =
     t\<lparr>nodes := (nodes t)[node := (nodes t ! node)\<lparr>right := invalidNodeValue, rightValue := v\<rparr>]\<rparr>"

definition setLeft :: "huffmanTree \<Rightarrow> nat \<Rightarrow> 16 word \<Rightarrow> huffmanTree" where
  "setLeft t node i = t\<lparr>nodes := (nodes t)[node := (nodes t ! node)\<lparr>left := i\<rparr>]\<rparr>"

definition setRight :: "huffmanTree \<Rightarrow> nat \<Rightarrow> 16 word \<Rightarrow> huffmanTree" where
  "setRight t node i = t\<lparr>nodes := (nodes t)[node := (nodes t ! node)\<lparr>right := i\<rparr>]\<rparr>"

text \<open>\<open>codes.value[i]\<close> with Go's bounds check.\<close>

definition valueAt :: "huffmanCodes \<Rightarrow> int \<Rightarrow> error + 16 word" where
  "valueAt codes i =
     (if i < 0 \<or> int (length (cvalue codes)) \<le> i then Inl (Panic ''index out of range'')
      else Inr (cvalue codes ! nat i))"

text \<open>
  \<open>buildHuffmanNode\<close> (lines 179 to 251). The tree is passed in and returned. Every error
  return and every panic leaves the recursion at once (each caller returns the error it gets),
  so the result is either the error or the new tree with the returned node index.
  \<open>level\<close> is a \<open>uint32\<close>: \<open>31 - level\<close> and \<open>level + 1\<close> wrap.
\<close>

function buildHuffmanNode ::
  "huffmanTree \<Rightarrow> huffmanCodes \<Rightarrow> 32 word \<Rightarrow> int \<Rightarrow> int \<Rightarrow> error + (huffmanTree \<times> 16 word)" where
  "buildHuffmanNode t codes level l r =
     (case findFirstRight codes (shiftLeft32 1 (unat (31 - level))) l r (r - l) of
        Inl e \<Rightarrow> Inl e
      | Inr firstRightIndex \<Rightarrow>
          if firstRightIndex - l = 0 \<or> r - firstRightIndex = 0 then
            (if length (code codes) < 2 then Inl (StructuralError ''empty Huffman tree'')
             else if level = 31 then Inl (StructuralError ''equal symbols in Huffman tree'')
             else if firstRightIndex - l = 0 then
               buildHuffmanNode t codes (level + 1) firstRightIndex r
             else buildHuffmanNode t codes (level + 1) l firstRightIndex)
          else if length (nodes t) \<le> nextNode t then Inl (Panic ''index out of range'')
          else
            (case (if firstRightIndex - l = 1 then
                     (case valueAt codes l of
                        Inl e \<Rightarrow> Inl e
                      | Inr v \<Rightarrow> Inr (setLeftLeaf (t\<lparr>nextNode := nextNode t + 1\<rparr>) (nextNode t) v))
                   else
                     (case buildHuffmanNode (t\<lparr>nextNode := nextNode t + 1\<rparr>) codes (level + 1)
                             l firstRightIndex of
                        Inl e \<Rightarrow> Inl e
                      | Inr (t1, i) \<Rightarrow> Inr (setLeft t1 (nextNode t) i))) of
               Inl e \<Rightarrow> Inl e
             | Inr t2 \<Rightarrow>
                 if r - firstRightIndex = 1 then
                   (case valueAt codes firstRightIndex of
                      Inl e \<Rightarrow> Inl e
                    | Inr v \<Rightarrow> Inr (setRightLeaf t2 (nextNode t) v, word_of_nat (nextNode t)))
                 else
                   (case buildHuffmanNode t2 codes (level + 1) firstRightIndex r of
                      Inl e \<Rightarrow> Inl e
                    | Inr (t3, i) \<Rightarrow> Inr (setRight t3 (nextNode t) i, word_of_nat (nextNode t)))))"
  by pat_completeness auto


subsection \<open>newHuffmanTree\<close>

text \<open>Lines 97 to 101: \<open>pairs[i].value = uint16(i)\<close>, \<open>pairs[i].length = lengths[i]\<close>.\<close>

definition makePairs :: "8 word list \<Rightarrow> huffmanSymbolLengthPair list" where
  "makePairs lengths =
     map (\<lambda>i. \<lparr>pvalue = word_of_nat i, plength = lengths ! i\<rparr>) [0..<length lengths]"

text \<open>Lines 123 to 127: the three slices of \<open>codes\<close>, allocated with zeros.\<close>

definition makeCodes :: "nat \<Rightarrow> huffmanCodes" where
  "makeCodes n = \<lparr>code = replicate n 0, codeLen = replicate n 0, cvalue = replicate n 0\<rparr>"

text \<open>
  The loop of lines 128 to 138, \<open>for i := len(pairs) - 1; i >= 0; i--\<close>. The second
  argument is \<open>i + 1\<close>; \<open>c\<close> and \<open>len\<close> are the variables \<open>code\<close> and \<open>length\<close>.
  \<open>32 - length\<close> is computed in \<open>uint8\<close> and the shift in \<open>uint32\<close>.
\<close>

fun assignCodes ::
  "huffmanSymbolLengthPair list \<Rightarrow> nat \<Rightarrow> 32 word \<Rightarrow> 8 word \<Rightarrow> huffmanCodes \<Rightarrow> huffmanCodes" where
  "assignCodes pairs 0 c len codes = codes"
| "assignCodes pairs (Suc i) c len codes =
     (let len' = (if len > plength (pairs ! i) then plength (pairs ! i) else len);
          codes' = codes\<lparr>code := (code codes)[i := c],
                         codeLen := (codeLen codes)[i := len'],
                         cvalue := (cvalue codes)[i := pvalue (pairs ! i)]\<rparr>
      in assignCodes pairs i (c + shiftLeft32 1 (unat (32 - len'))) len' codes')"

text \<open>The value of \<open>codes\<close> before line 142 (as assigned) and after it (sorted by code).\<close>

definition assignedCodes :: "8 word list \<Rightarrow> huffmanCodes" where
  "assignedCodes lengths =
     (let pairs = sortBy pairLess (makePairs lengths)
      in assignCodes pairs (length pairs) 0 32 (makeCodes (length lengths)))"

definition sortedCodes :: "8 word list \<Rightarrow> huffmanCodes" where
  "sortedCodes lengths = sortCodes (assignedCodes lengths)"

text \<open>The tree of line 144: as many zero nodes as there are codes, \<open>nextNode = 0\<close>.\<close>

definition emptyTree :: "nat \<Rightarrow> huffmanTree" where
  "emptyTree n = \<lparr>nodes = replicate n zeroNode, nextNode = 0\<rparr>"

text \<open>
  \<open>newHuffmanTree\<close> (lines 80 to 147). The panic of line 90 and the error of
  \<open>buildHuffmanNode\<close> are the \<open>Inl\<close> results; the tree returned beside an error is not
  modelled.
\<close>

definition newHuffmanTree :: "8 word list \<Rightarrow> error + huffmanTree" where
  "newHuffmanTree lengths =
     (if length lengths < 2 then Inl (Panic ''newHuffmanTree: too few symbols'')
      else
        let codes = sortedCodes lengths;
            t = emptyTree (length (code codes))
        in case buildHuffmanNode t codes 0 0 (int (length (code codes))) of
             Inl e \<Rightarrow> Inl e
           | Inr (t', nodeIndex) \<Rightarrow> Inr t')"

text \<open>
  The code and the code length that \<open>newHuffmanTree\<close> assigns to a symbol value: the entry
  of \<open>codes\<close> that carries the value.
\<close>

definition codeOf :: "huffmanCodes \<Rightarrow> 16 word \<Rightarrow> (32 word \<times> 8 word) option" where
  "codeOf codes v = map_of (zip (cvalue codes) (zip (code codes) (codeLen codes))) v"

subsection \<open>The bit source\<close>

text \<open>
  Modelled from the spec: the bit source (type \<open>bitReader\<close>, its fields \<open>n\<close> and \<open>bits\<close>
  and its method \<open>ReadBits\<close>) is not part of the source file. The spec gives it a buffer
  value and a count of buffered bits, which the decoder inspects, and an operation
  \<open>read_bits(count)\<close> that returns the next \<open>count\<close> bits as an unsigned integer, most
  significant bit first, advances the stream position, and fails if not enough bits remain.
  The underlying byte source is kept as the sequence of its bits, \<open>br_src\<close>. The bits still
  to come are the \<open>br_bits\<close> buffered bits of \<open>br_n\<close>, highest first, and then the source.
\<close>

record bitReader =
  br_n :: "64 word"
  br_bits :: nat
  br_src :: "bool list"

definition buffered :: "bitReader \<Rightarrow> bool list" where
  "buffered br = map (\<lambda>i. bit (br_n br) (i AND 63)) (rev [0..<br_bits br])"

definition stream :: "bitReader \<Rightarrow> bool list" where
  "stream br = buffered br @ br_src br"

definition bitsValue :: "bool list \<Rightarrow> 64 word" where
  "bitsValue bs = foldl (\<lambda>a b. 2 * a + (if b then 1 else 0)) 0 bs"

definition ReadBits :: "bitReader \<Rightarrow> nat \<Rightarrow> error + (64 word \<times> bitReader)" where
  "ReadBits br count =
     (if length (stream br) < count then Inl UnexpectedEOF
      else Inr (bitsValue (take count (stream br)),
                br\<lparr>br_bits := br_bits br - count,
                   br_src := drop (count - br_bits br) (br_src br)\<rparr>))"

subsection \<open>Decode\<close>

text \<open>
  Lines 42 to 52: the next bit, from the buffer when \<open>br.bits > 0\<close> (\<open>br.bits--\<close>, then
  bit \<open>br.bits & 63\<close> of \<open>br.n\<close>), else from \<open>br.ReadBits(1)\<close>, converted to \<open>uint16\<close>.
  A failure of \<open>ReadBits\<close> ends \<open>Decode\<close> with that failure.
\<close>

definition nextBit :: "bitReader \<Rightarrow> error + (16 word \<times> bitReader)" where
  "nextBit br =
     (if br_bits br > 0 then
        (let br' = br\<lparr>br_bits := br_bits br - 1\<rparr>
         in Inr ((ucast (drop_bit (br_bits br' AND 63) (br_n br')) :: 16 word) AND 1, br'))
      else
        (case ReadBits br 1 of
           Inl e \<Rightarrow> Inl e
         | Inr (x, br') \<Rightarrow> Inr (ucast x, br')))"

text \<open>
  The loop of \<open>Decode\<close> (lines 39 to 75), entered with the current \<open>nodeIndex\<close>. Indexing
  \<open>t.nodes\<close> out of range panics. The result is the symbol and the bit source after the
  bits that were read.
\<close>

function DecodeLoop :: "huffmanTree \<Rightarrow> 16 word \<Rightarrow> bitReader \<Rightarrow> error + (16 word \<times> bitReader)" where
  "DecodeLoop t nodeIndex br =
     (if length (nodes t) \<le> unat nodeIndex then Inl (Panic ''index out of range'')
      else
        (case nextBit br of
           Inl e \<Rightarrow> Inl e
         | Inr (b, br') \<Rightarrow>
             (let node = nodes t ! unat nodeIndex;
                  nodeIndex' = (if b = 1 then left node else right node)
              in if nodeIndex' = invalidNodeValue then
                   Inr (if b = 1 then leftValue node else rightValue node, br')
                 else DecodeLoop t nodeIndex' br')))"
  by pat_completeness auto

definition Decode :: "huffmanTree \<Rightarrow> bitReader \<Rightarrow> error + (16 word \<times> bitReader)" where
  "Decode t br = DecodeLoop t 0 br"

subsection \<open>Notions used by the properties\<close>

text \<open>
  The tree after lines 226 to 236 of a call that allocates a node: the node is taken, and
  its left slot is filled with a leaf or with the node built for \<open>[l, firstRightIndex)\<close>.
\<close>

definition leftChild ::
  "huffmanTree \<Rightarrow> huffmanCodes \<Rightarrow> 32 word \<Rightarrow> int \<Rightarrow> int \<Rightarrow> error + huffmanTree" where
  "leftChild t codes level l firstRightIndex =
     (if firstRightIndex - l = 1 then
        (case valueAt codes l of
           Inl e \<Rightarrow> Inl e
         | Inr v \<Rightarrow> Inr (setLeftLeaf (t\<lparr>nextNode := nextNode t + 1\<rparr>) (nextNode t) v))
      else
        (case buildHuffmanNode (t\<lparr>nextNode := nextNode t + 1\<rparr>) codes (level + 1)
                l firstRightIndex of
           Inl e \<Rightarrow> Inl e
         | Inr (t1, i) \<Rightarrow> Inr (setLeft t1 (nextNode t) i)))"

text \<open>
  The recursive calls that one call of \<open>buildHuffmanNode\<close> makes, one rule for each call
  in the source (lines 221, 223, 235 and 247), under the conditions on the path to it. A call
  is the tree it is given, the level and the range.
\<close>

inductive buildCalls ::
  "huffmanCodes \<Rightarrow> huffmanTree \<times> 32 word \<times> int \<times> int \<Rightarrow> huffmanTree \<times> 32 word \<times> int \<times> int \<Rightarrow> bool"
  for codes :: huffmanCodes where
  call221:
    "findFirstRight codes (shiftLeft32 1 (unat (31 - level))) l r (r - l) = Inr fri \<Longrightarrow>
     fri - l = 0 \<or> r - fri = 0 \<Longrightarrow> \<not> length (code codes) < 2 \<Longrightarrow> level \<noteq> 31 \<Longrightarrow>
     fri - l = 0 \<Longrightarrow>
     buildCalls codes (t, level, l, r) (t, level + 1, fri, r)"
| call223:
    "findFirstRight codes (shiftLeft32 1 (unat (31 - level))) l r (r - l) = Inr fri \<Longrightarrow>
     fri - l = 0 \<or> r - fri = 0 \<Longrightarrow> \<not> length (code codes) < 2 \<Longrightarrow> level \<noteq> 31 \<Longrightarrow>
     fri - l \<noteq> 0 \<Longrightarrow>
     buildCalls codes (t, level, l, r) (t, level + 1, l, fri)"
| call235:
    "findFirstRight codes (shiftLeft32 1 (unat (31 - level))) l r (r - l) = Inr fri \<Longrightarrow>
     \<not> (fri - l = 0 \<or> r - fri = 0) \<Longrightarrow> \<not> length (nodes t) \<le> nextNode t \<Longrightarrow>
     fri - l \<noteq> 1 \<Longrightarrow>
     buildCalls codes (t, level, l, r) (t\<lparr>nextNode := nextNode t + 1\<rparr>, level + 1, l, fri)"
| call247:
    "findFirstRight codes (shiftLeft32 1 (unat (31 - level))) l r (r - l) = Inr fri \<Longrightarrow>
     \<not> (fri - l = 0 \<or> r - fri = 0) \<Longrightarrow> \<not> length (nodes t) \<le> nextNode t \<Longrightarrow>
     leftChild t codes level l fri = Inr t2 \<Longrightarrow> r - fri \<noteq> 1 \<Longrightarrow>
     buildCalls codes (t, level, l, r) (t2, level + 1, fri, r)"

text \<open>
  The loop of \<open>Decode\<close> on the bits that the bit source still holds: what \<open>DecodeLoop\<close>
  does when \<open>nextBit\<close> hands out these bits one by one and then fails. The result holds
  the bits that were not read.
\<close>

fun DecodeBits :: "huffmanTree \<Rightarrow> 16 word \<Rightarrow> bool list \<Rightarrow> error + (16 word \<times> bool list)" where
  "DecodeBits t nodeIndex [] =
     (if length (nodes t) \<le> unat nodeIndex then Inl (Panic ''index out of range'')
      else Inl UnexpectedEOF)"
| "DecodeBits t nodeIndex (b # bs) =
     (if length (nodes t) \<le> unat nodeIndex then Inl (Panic ''index out of range'')
      else
        (let node = nodes t ! unat nodeIndex;
             nodeIndex' = (if b then left node else right node)
         in if nodeIndex' = invalidNodeValue then
              Inr (if b then leftValue node else rightValue node, bs)
            else DecodeBits t nodeIndex' bs))"

text \<open>
  The test of line 186 for entry \<open>k\<close> of \<open>codes\<close> at a level: \<open>codes.code[k] & test != 0\<close>.
\<close>

definition hasBit :: "huffmanCodes \<Rightarrow> 32 word \<Rightarrow> int \<Rightarrow> bool" where
  "hasBit codes level k = ((code codes ! nat k) AND shiftLeft32 1 (unat (31 - level)) \<noteq> 0)"

section \<open>Termination\<close>

declare findFirstRight.simps [simp del]

lemma set_simps [simp]:
  "length (nodes (setLeftLeaf t k v)) = length (nodes t)"
  "nextNode (setLeftLeaf t k v) = nextNode t"
  "length (nodes (setRightLeaf t k v)) = length (nodes t)"
  "nextNode (setRightLeaf t k v) = nextNode t"
  "length (nodes (setLeft t k i)) = length (nodes t)"
  "nextNode (setLeft t k i) = nextNode t"
  "length (nodes (setRight t k i)) = length (nodes t)"
  "nextNode (setRight t k i) = nextNode t"
  by (simp_all add: setLeftLeaf_def setRightLeaf_def setLeft_def setRight_def)

text \<open>
  Within its domain a successful call keeps the length of \<open>nodes\<close> and never lowers
  \<open>nextNode\<close>; the second recursive call therefore starts with fewer free nodes.
\<close>

lemma build_dom_mono:
  assumes "buildHuffmanNode_dom (t, codes, level, l, r)"
    and "buildHuffmanNode t codes level l r = Inr (t', i)"
  shows "length (nodes t') = length (nodes t) \<and> nextNode t \<le> nextNode t'"
  using assms
proof (induction arbitrary: t' i rule: buildHuffmanNode.pinduct)
  case (1 t codes level l r)
  note eq = "1.prems" [unfolded buildHuffmanNode.psimps [OF "1.hyps"]]
  from eq obtain fri where
    f: "findFirstRight codes (shiftLeft32 1 (unat (31 - level))) l r (r - l) = Inr fri"
    by (cases "findFirstRight codes (shiftLeft32 1 (unat (31 - level))) l r (r - l)") auto
  note eq1 = eq [unfolded f sum.case]
  show ?case
  proof (cases "fri - l = 0 \<or> r - fri = 0")
    case True
    with eq1 have c: "\<not> length (code codes) < 2" "level \<noteq> 31"
      by (auto split: if_splits)
    show ?thesis
    proof (cases "fri - l = 0")
      case z: True
      with eq1 True c have "buildHuffmanNode t codes (level + 1) fri r = Inr (t', i)" by simp
      from "1.IH"(1) [OF f True c z this] show ?thesis .
    next
      case z: False
      with eq1 True c have "buildHuffmanNode t codes (level + 1) l fri = Inr (t', i)" by simp
      from "1.IH"(2) [OF f True c z this] show ?thesis .
    qed
  next
    case False
    with eq1 have n: "\<not> length (nodes t) \<le> nextNode t" by (auto split: if_splits)
    let ?t0 = "t\<lparr>nextNode := nextNode t + 1\<rparr>"
    let ?L = "if fri - l = 1 then
                (case valueAt codes l of Inl e \<Rightarrow> Inl e
                 | Inr v \<Rightarrow> Inr (setLeftLeaf ?t0 (nextNode t) v))
              else (case buildHuffmanNode ?t0 codes (level + 1) l fri of
                      Inl e \<Rightarrow> Inl e | Inr (t1, i) \<Rightarrow> Inr (setLeft t1 (nextNode t) i))"
    from eq1 False n obtain t2 where L: "?L = Inr t2"
      by (cases ?L) (simp_all del: One_nat_def)
    have m2: "length (nodes t2) = length (nodes t) \<and> nextNode t \<le> nextNode t2"
    proof (cases "fri - l = 1")
      case True
      with L show ?thesis by (auto split: sum.splits)
    next
      case nl: False
      with L obtain t1 li where
        b: "buildHuffmanNode ?t0 codes (level + 1) l fri = Inr (t1, li)"
        and t2: "t2 = setLeft t1 (nextNode t) li"
        by (auto split: sum.splits)
      from "1.IH"(3) [OF f False n nl b] show ?thesis by (simp add: t2)
    qed
    from eq1 False n L have eq2:
      "(if r - fri = 1 then
          (case valueAt codes fri of Inl e \<Rightarrow> Inl e
           | Inr v \<Rightarrow> Inr (setRightLeaf t2 (nextNode t) v, word_of_nat (nextNode t)))
        else (case buildHuffmanNode t2 codes (level + 1) fri r of
                Inl e \<Rightarrow> Inl e
              | Inr (t3, i) \<Rightarrow> Inr (setRight t3 (nextNode t) i, word_of_nat (nextNode t))))
       = Inr (t', i)"
      by (simp del: One_nat_def)
    show ?thesis
    proof (cases "r - fri = 1")
      case True
      with eq2 m2 show ?thesis by (auto split: sum.splits)
    next
      case nr: False
      with eq2 obtain t3 ri where
        b: "buildHuffmanNode t2 codes (level + 1) fri r = Inr (t3, ri)"
        and t': "t' = setRight t3 (nextNode t) ri"
        by (auto split: sum.splits)
      from "1.IH"(4) [OF f False n L nr b] m2 show ?thesis by (simp add: t')
    qed
  qed
qed

lemma level_decr: "level \<noteq> (31 :: 32 word) \<Longrightarrow> unat (31 - (level + 1)) < unat (31 - level)"
proof -
  assume "level \<noteq> 31"
  then have nz: "31 - level \<noteq> 0" by simp
  have "31 - (level + 1) = (31 - level) - 1" by simp
  moreover have "unat ((31 - level) - 1) = unat (31 - level) - 1"
    using nz by (rule unat_minus_one)
  ultimately have "unat (31 - (level + 1)) = unat (31 - level) - 1"
    by (simp only:)
  moreover have "0 < unat (31 - level)" using nz by (simp add: unat_gt_0)
  ultimately show ?thesis by simp
qed

termination buildHuffmanNode
proof (relation "measures [\<lambda>(t, codes, level, l, r). length (nodes t) - nextNode t,
                           \<lambda>(t, codes, level, l, r). unat (31 - level)]", goal_cases)
  case 1
  then show ?case by simp
next
  case (2 t codes level l r fri)
  from 2(4) have "unat (31 - (level + 1)) < unat (31 - level)" by (rule level_decr)
  then show ?case by simp
next
  case (3 t codes level l r fri)
  from 3(4) have "unat (31 - (level + 1)) < unat (31 - level)" by (rule level_decr)
  then show ?case by simp
next
  case (4 t codes level l r fri)
  then have "nextNode t < length (nodes t)" by simp
  then have "length (nodes t) - Suc (nextNode t) < length (nodes t) - nextNode t" by arith
  then show ?case by simp
next
  case (5 t codes level l r fri t2)
  have lt: "nextNode t < length (nodes t)" using 5 by simp
  have "length (nodes t2) = length (nodes t) \<and> nextNode t + 1 \<le> nextNode t2"
  proof (cases "fri - l = 1")
    case True
    then show ?thesis using 5(4) by (auto split: sum.splits)
  next
    case False
    then obtain t1 i where
      b: "buildHuffmanNode (t\<lparr>nextNode := nextNode t + 1\<rparr>) codes (level + 1) l fri = Inr (t1, i)"
      and t2: "t2 = setLeft t1 (nextNode t) i"
      using 5(4) by (auto split: sum.splits)
    from False 5(6) have "buildHuffmanNode_dom (t\<lparr>nextNode := nextNode t + 1\<rparr>, codes, level + 1, l, fri)"
      by simp
    from build_dom_mono [OF this b] show ?thesis by (simp add: t2)
  qed
  then have "length (nodes t2) - nextNode t2 < length (nodes t) - nextNode t"
    using lt by arith
  then show ?case by simp
qed




lemma length_stream: "length (stream br) = br_bits br + length (br_src br)"
  by (simp add: stream_def buffered_def)

lemma nextBit_shorter:
  assumes "nextBit br = Inr (b, br')"
  shows "length (stream br') < length (stream br)"
proof (cases "br_bits br > 0")
  case True
  with assms have "br' = br\<lparr>br_bits := br_bits br - 1\<rparr>"
    by (simp add: nextBit_def Let_def)
  with True show ?thesis by (simp add: length_stream)
next
  case False
  with assms obtain x where "ReadBits br 1 = Inr (x, br')"
    by (auto simp: nextBit_def split: sum.splits)
  with False show ?thesis
    by (auto simp: ReadBits_def length_stream split: if_splits)
qed

termination DecodeLoop
proof (relation "measure (\<lambda>(t, nodeIndex, br). length (stream br))", goal_cases)
  case 1
  then show ?case by simp
next
  case (2 t nodeIndex br x b br' node nodeIndex')
  from 2(2) [symmetric] 2(3) have "nextBit br = Inr (b, br')" by simp
  from nextBit_shorter [OF this] show ?case by simp
qed

declare buildHuffmanNode.simps [simp del] DecodeLoop.simps [simp del]

section \<open>Unfolding and induction for buildHuffmanNode\<close>

lemma build_unfold:
  "buildHuffmanNode t codes level l r =
     (case findFirstRight codes (shiftLeft32 1 (unat (31 - level))) l r (r - l) of
        Inl e \<Rightarrow> Inl e
      | Inr fri \<Rightarrow>
          if fri = l \<or> fri = r then
            (if length (code codes) < 2 then Inl (StructuralError ''empty Huffman tree'')
             else if level = 31 then Inl (StructuralError ''equal symbols in Huffman tree'')
             else buildHuffmanNode t codes (level + 1) l r)
          else if length (nodes t) \<le> nextNode t then Inl (Panic ''index out of range'')
          else
            (case leftChild t codes level l fri of
               Inl e \<Rightarrow> Inl e
             | Inr t2 \<Rightarrow>
                 if r - fri = 1 then
                   (case valueAt codes fri of
                      Inl e \<Rightarrow> Inl e
                    | Inr v \<Rightarrow> Inr (setRightLeaf t2 (nextNode t) v, word_of_nat (nextNode t)))
                 else
                   (case buildHuffmanNode t2 codes (level + 1) fri r of
                      Inl e \<Rightarrow> Inl e
                    | Inr (t3, i) \<Rightarrow> Inr (setRight t3 (nextNode t) i, word_of_nat (nextNode t)))))"
  by (subst buildHuffmanNode.simps) (auto simp: leftChild_def split: sum.splits)

lemma build_skip:
  assumes "findFirstRight codes (shiftLeft32 1 (unat (31 - level))) l r (r - l) = Inr fri"
    and "fri = l \<or> fri = r" and "2 \<le> length (code codes)" and "level \<noteq> 31"
  shows "buildHuffmanNode t codes level l r = buildHuffmanNode t codes (level + 1) l r"
  using assms by (subst build_unfold) auto

lemma build_node:
  assumes "findFirstRight codes (shiftLeft32 1 (unat (31 - level))) l r (r - l) = Inr fri"
    and "fri \<noteq> l" and "fri \<noteq> r" and "nextNode t < length (nodes t)"
  shows "buildHuffmanNode t codes level l r =
     (case leftChild t codes level l fri of
        Inl e \<Rightarrow> Inl e
      | Inr t2 \<Rightarrow>
          if r - fri = 1 then
            (case valueAt codes fri of
               Inl e \<Rightarrow> Inl e
             | Inr v \<Rightarrow> Inr (setRightLeaf t2 (nextNode t) v, word_of_nat (nextNode t)))
          else
            (case buildHuffmanNode t2 codes (level + 1) fri r of
               Inl e \<Rightarrow> Inl e
             | Inr (t3, i) \<Rightarrow> Inr (setRight t3 (nextNode t) i, word_of_nat (nextNode t))))"
  using assms by (subst build_unfold) auto

text \<open>A successful call either skipped its level or allocated a node.\<close>

lemma build_InrE [consumes 1, case_names skip node]:
  assumes "buildHuffmanNode t codes level l r = Inr (t', i)"
  obtains
    (skip) fri where
      "findFirstRight codes (shiftLeft32 1 (unat (31 - level))) l r (r - l) = Inr fri"
      "fri = l \<or> fri = r" "2 \<le> length (code codes)" "level \<noteq> 31"
      "buildHuffmanNode t codes (level + 1) l r = Inr (t', i)"
  | (node) fri t2 where
      "findFirstRight codes (shiftLeft32 1 (unat (31 - level))) l r (r - l) = Inr fri"
      "fri \<noteq> l" "fri \<noteq> r" "nextNode t < length (nodes t)"
      "leftChild t codes level l fri = Inr t2"
      "i = word_of_nat (nextNode t)"
      "r - fri = 1 \<longrightarrow> (\<exists>v. valueAt codes fri = Inr v \<and> t' = setRightLeaf t2 (nextNode t) v)"
      "r - fri \<noteq> 1 \<longrightarrow> (\<exists>t3 ri. buildHuffmanNode t2 codes (level + 1) fri r = Inr (t3, ri)
          \<and> t' = setRight t3 (nextNode t) ri)"
proof -
  from assms obtain fri where
    f: "findFirstRight codes (shiftLeft32 1 (unat (31 - level))) l r (r - l) = Inr fri"
    by (subst (asm) build_unfold) (auto split: sum.splits)
  show thesis
  proof (cases "fri = l \<or> fri = r")
    case True
    with assms f show thesis
      by (intro skip [OF f True]; subst (asm) build_unfold) (auto split: if_splits)
  next
    case False
    with assms f obtain t2 where n: "nextNode t < length (nodes t)"
      and L: "leftChild t codes level l fri = Inr t2"
      by (subst (asm) build_unfold) (auto split: if_splits sum.splits)
    from assms f False n L show thesis
      by (intro node [OF f _ _ n L]; subst (asm) build_unfold)
         (auto split: if_splits sum.splits)
  qed
qed

lemma leftChild_InrE [consumes 1, case_names leaf child]:
  assumes "leftChild t codes level l fri = Inr t2"
  obtains
    (leaf) v where "fri - l = 1" "valueAt codes l = Inr v"
      "t2 = setLeftLeaf (t\<lparr>nextNode := nextNode t + 1\<rparr>) (nextNode t) v"
  | (child) t1 li where "fri - l \<noteq> 1"
      "buildHuffmanNode (t\<lparr>nextNode := nextNode t + 1\<rparr>) codes (level + 1) l fri = Inr (t1, li)"
      "t2 = setLeft t1 (nextNode t) li"
  using assms by (auto simp: leftChild_def split: if_splits sum.splits)

text \<open>Computation induction, with the conditions of the three kinds of recursive call.\<close>

lemma build_induct [case_names call]:
  assumes "\<And>t codes level l r.
     (\<And>fri. findFirstRight codes (shiftLeft32 1 (unat (31 - level))) l r (r - l) = Inr fri \<Longrightarrow>
        fri = l \<or> fri = r \<Longrightarrow> 2 \<le> length (code codes) \<Longrightarrow> level \<noteq> 31 \<Longrightarrow>
        P t codes (level + 1) l r) \<Longrightarrow>
     (\<And>fri. findFirstRight codes (shiftLeft32 1 (unat (31 - level))) l r (r - l) = Inr fri \<Longrightarrow>
        fri \<noteq> l \<Longrightarrow> fri \<noteq> r \<Longrightarrow> nextNode t < length (nodes t) \<Longrightarrow> fri - l \<noteq> 1 \<Longrightarrow>
        P (t\<lparr>nextNode := nextNode t + 1\<rparr>) codes (level + 1) l fri) \<Longrightarrow>
     (\<And>fri t2. findFirstRight codes (shiftLeft32 1 (unat (31 - level))) l r (r - l) = Inr fri \<Longrightarrow>
        fri \<noteq> l \<Longrightarrow> fri \<noteq> r \<Longrightarrow> nextNode t < length (nodes t) \<Longrightarrow>
        leftChild t codes level l fri = Inr t2 \<Longrightarrow> r - fri \<noteq> 1 \<Longrightarrow>
        P t2 codes (level + 1) fri r) \<Longrightarrow>
     P t codes level l r"
  shows "P t codes level l r"
proof (induction t codes level l r rule: buildHuffmanNode.induct)
  case (1 t codes level l r)
  show ?case
  proof (rule assms, goal_cases)
    case (1 fri)
    show ?case
    proof (cases "fri - l = 0")
      case True
      with 1 "1.IH"(1) [of fri] show ?thesis by simp
    next
      case False
      with 1 "1.IH"(2) [of fri] show ?thesis by simp
    qed
  next
    case (2 fri)
    with "1.IH"(3) [of fri] show ?case by simp
  next
    case (3 fri t2)
    with "1.IH"(4) [of fri t2] show ?case by (simp add: leftChild_def)
  qed
qed

subsection \<open>The search loop\<close>

lemma find_range:
  assumes "findFirstRight codes test i r d = Inr f"
  shows "f = d \<or> (i \<le> f \<and> f < r)"
  using assms
proof (induction codes test i r d rule: findFirstRight.induct)
  case (1 codes test i r d)
  show ?case
  proof (cases "i < r")
    case True
    with "1.prems" have inr: "\<not> (i < 0 \<or> int (length (code codes)) \<le> i)"
      by (subst (asm) findFirstRight.simps) (auto split: if_splits)
    show ?thesis
    proof (cases "(code codes ! nat i) AND test \<noteq> 0")
      case t: True
      with True inr "1.prems" have "f = i" by (subst (asm) findFirstRight.simps) simp
      with True show ?thesis by simp
    next
      case f: False
      with True inr "1.prems" have "findFirstRight codes test (i + 1) r d = Inr f"
        by (subst (asm) findFirstRight.simps) simp
      from "1.IH" [OF True inr f this] show ?thesis by auto
    qed
  next
    case False
    with "1.prems" show ?thesis by (subst (asm) findFirstRight.simps) simp
  qed
qed

lemma find_empty: "r \<le> i \<Longrightarrow> findFirstRight codes test i r d = Inr d"
  by (subst findFirstRight.simps) simp

lemma find_none:
  assumes "0 \<le> i" "r \<le> int (length (code codes))"
    and "\<And>k. i \<le> k \<Longrightarrow> k < r \<Longrightarrow> (code codes ! nat k) AND test = 0"
  shows "findFirstRight codes test i r d = Inr d"
  using assms
proof (induction codes test i r d rule: findFirstRight.induct)
  case (1 codes test i r d)
  show ?case
  proof (cases "i < r")
    case True
    with "1.prems" have inr: "\<not> (i < 0 \<or> int (length (code codes)) \<le> i)" by auto
    from True "1.prems"(3) [of i] have z: "\<not> (code codes ! nat i) AND test \<noteq> 0" by simp
    have "findFirstRight codes test (i + 1) r d = Inr d"
      using "1.prems" by (intro "1.IH" [OF True inr z]) auto
    with True inr z show ?thesis by (subst findFirstRight.simps) simp
  next
    case False
    then show ?thesis by (simp add: find_empty)
  qed
qed


subsection \<open>What a successful call does to the tree\<close>

lemma build_mono:
  assumes "buildHuffmanNode t codes level l r = Inr (t', i)"
  shows "length (nodes t') = length (nodes t) \<and> nextNode t \<le> nextNode t'"
  using assms
proof (induction t codes level l r arbitrary: t' i rule: build_induct)
  case (call t codes level l r)
  from call.prems show ?case
  proof (cases rule: build_InrE)
    case (skip fri)
    from call.IH(1) [OF skip] show ?thesis .
  next
    case (node fri t2)
    from node(5) have m2: "length (nodes t2) = length (nodes t) \<and> nextNode t < nextNode t2"
    proof (cases rule: leftChild_InrE)
      case (leaf v)
      then show ?thesis by simp
    next
      case (child t1 li)
      from call.IH(2) [OF node(1-4) child(1,2)] child(3) show ?thesis by simp
    qed
    show ?thesis
    proof (cases "r - fri = 1")
      case True
      with node(7) m2 show ?thesis by auto
    next
      case False
      with node(8) obtain t3 ri where
        b: "buildHuffmanNode t2 codes (level + 1) fri r = Inr (t3, ri)"
        and t': "t' = setRight t3 (nextNode t) ri" by auto
      from call.IH(3) [OF node(1-5) False b] m2 t' show ?thesis by simp
    qed
  qed
qed


text \<open>
  A successful call on a range that starts at an index \<open>l \<ge> 0\<close> has at least two entries
  and takes one node less than it has entries.
\<close>

lemma build_count:
  assumes "buildHuffmanNode t codes level l r = Inr (t', i)" and "0 \<le> l"
  shows "2 \<le> r - l \<and> int (nextNode t') = int (nextNode t) + (r - l - 1)"
  using assms
proof (induction t codes level l r arbitrary: t' i rule: build_induct)
  case (call t codes level l r)
  from call.prems(1) show ?case
  proof (cases rule: build_InrE)
    case (skip fri)
    from call.IH(1) [OF skip call.prems(2)] show ?thesis .
  next
    case (node fri t2)
    from node(5) have m2: "1 \<le> fri - l \<and> int (nextNode t2) = int (nextNode t) + (fri - l)"
    proof (cases rule: leftChild_InrE)
      case (leaf v)
      then show ?thesis by simp
    next
      case (child t1 li)
      from call.IH(2) [OF node(1-4) child(1,2) call.prems(2)] child(3)
      show ?thesis by simp
    qed
    with call.prems(2) have fri0: "0 \<le> fri" by simp
    show ?thesis
    proof (cases "r - fri = 1")
      case True
      with node(7) m2 show ?thesis by auto
    next
      case False
      with node(8) obtain t3 ri where
        b: "buildHuffmanNode t2 codes (level + 1) fri r = Inr (t3, ri)"
        and t': "t' = setRight t3 (nextNode t) ri" by auto
      from call.IH(3) [OF node(1-5) False b fri0] m2 t' show ?thesis by simp
    qed
  qed
qed

section \<open>Properties\<close>

lemma replicate_numeral: "replicate (numeral v) x = x # replicate (numeral v - 1) x"
  by (simp add: numeral_eq_Suc)

lemma list_update_numeral: "(x # xs)[numeral v := y] = x # xs[numeral v - 1 := y]"
  by (simp add: numeral_eq_Suc)

lemmas eval_defs = newHuffmanTree_def sortedCodes_def assignedCodes_def sortCodes_def sortBy_def
  makePairs_def makeCodes_def pairLess_def codesLess_def emptyTree_def zeroNode_def
  shiftLeft32_def valueAt_def setLeftLeaf_def setRightLeaf_def setLeft_def setRight_def
  invalidNodeValue_def Let_def replicate_numeral list_update_numeral

subsection \<open>Lengths of the slices\<close>

lemma length_insertBy [simp]: "length (insertBy lt x ys) = Suc (length ys)"
  by (induction ys) simp_all

lemma length_sortBy [simp]: "length (sortBy lt xs) = length xs"
  by (induction xs) (simp_all add: sortBy_def)

lemma length_assignCodes [simp]:
  "length (code (assignCodes pairs k c len codes)) = length (code codes)"
  "length (codeLen (assignCodes pairs k c len codes)) = length (codeLen codes)"
  "length (cvalue (assignCodes pairs k c len codes)) = length (cvalue codes)"
  by (induction pairs k c len codes rule: assignCodes.induct) (simp_all add: Let_def)

lemma length_sortedCodes [simp]:
  "length (code (sortedCodes lengths)) = length lengths"
  "length (codeLen (sortedCodes lengths)) = length lengths"
  "length (cvalue (sortedCodes lengths)) = length lengths"
  by (simp_all add: sortedCodes_def sortCodes_def assignedCodes_def makeCodes_def Let_def)

lemma newHuffmanTree_InrE:
  assumes "newHuffmanTree lengths = Inr t"
  obtains i where "2 \<le> length lengths"
    "buildHuffmanNode (emptyTree (length lengths)) (sortedCodes lengths) 0 0 (int (length lengths))
       = Inr (t, i)"
  using assms by (auto simp: newHuffmanTree_def Let_def split: if_splits sum.splits)

text \<open>
  C5, as amended. After \<open>newHuffmanTree\<close> succeeds on \<open>n\<close> lengths, every one of
  which has become a leaf, the tree uses exactly \<open>n - 1\<close> nodes (\<open>nextNode = n - 1\<close>),
  and the node array has \<open>n\<close> entries: line 144 allocates one entry for each code, one
  more than the recursion takes.
\<close>

theorem nodes_used_and_allocated:
  assumes "newHuffmanTree lengths = Inr t"
  shows "nextNode t = length lengths - 1 \<and> length (nodes t) = length lengths"
proof -
  from assms obtain i where
    b: "buildHuffmanNode (emptyTree (length lengths)) (sortedCodes lengths) 0 0
          (int (length lengths)) = Inr (t, i)"
    by (rule newHuffmanTree_InrE)
  from build_count [OF b] have "int (nextNode t) = int (length lengths) - 1"
    by (simp add: emptyTree_def)
  moreover from build_mono [OF b] have "length (nodes t) = length lengths"
    by (simp add: emptyTree_def)
  ultimately show ?thesis by simp
qed

lemma sortedCodes_1_1:
  "sortedCodes [1, 1] = \<lparr>code = [0, 0x80000000], codeLen = [1, 1], cvalue = [1, 0]\<rparr>"
  by (simp add: eval_defs)

lemma newHuffmanTree_1_1:
  "newHuffmanTree [1, 1] =
     Inr \<lparr>nodes = [\<lparr>left = 0xffff, right = 0xffff, leftValue = 1, rightValue = 0\<rparr>,
                    \<lparr>left = 0, right = 0, leftValue = 0, rightValue = 0\<rparr>],
           nextNode = 1\<rparr>"
  unfolding newHuffmanTree_def sortedCodes_1_1
  by (simp add: eval_defs buildHuffmanNode.simps findFirstRight.simps)

text \<open>The lengths \<open>[1, 1]\<close> satisfy the hypothesis.\<close>

theorem nodes_used_and_allocated_witness:
  "nextNode \<lparr>nodes = [\<lparr>left = 0xffff, right = 0xffff, leftValue = 1, rightValue = 0\<rparr>,
                      \<lparr>left = 0, right = 0, leftValue = 0, rightValue = 0\<rparr>],
             nextNode = 1\<rparr> = length [1, 1 :: 8 word] - 1"
  using nodes_used_and_allocated [OF newHuffmanTree_1_1] by simp

text \<open>
  C5 as stated fails: for the two lengths \<open>[1, 1]\<close> the node array is allocated with two
  entries, not with \<open>n - 1 = 1\<close>.
\<close>

theorem node_array_has_spare_entry:
  "newHuffmanTree [1, 1] =
     Inr \<lparr>nodes = [\<lparr>left = 0xffff, right = 0xffff, leftValue = 1, rightValue = 0\<rparr>,
                    \<lparr>left = 0, right = 0, leftValue = 0, rightValue = 0\<rparr>],
           nextNode = 1\<rparr> \<and>
   length (nodes (emptyTree (length (code (sortedCodes [1, 1]))))) \<noteq> length [1, 1 :: 8 word] - 1"
  by (simp add: newHuffmanTree_1_1 emptyTree_def)

text \<open>
  C10, as amended. For a successful construction from at most 65536 lengths, no value \<open>k\<close>
  that the counter \<open>nextNode\<close> had when a node was allocated (\<open>k < nextNode\<close> of the
  result) is converted by \<open>uint16\<close> to the sentinel \<open>0xffff\<close>.
\<close>

theorem node_index_not_sentinel:
  assumes "newHuffmanTree lengths = Inr t" and "length lengths \<le> 65536" and "k < nextNode t"
  shows "(word_of_nat k :: 16 word) \<noteq> invalidNodeValue"
proof -
  from assms obtain i where
    b: "buildHuffmanNode (emptyTree (length lengths)) (sortedCodes lengths) 0 0
          (int (length lengths)) = Inr (t, i)"
    by (auto elim: newHuffmanTree_InrE)
  from build_count [OF b] have "int (nextNode t) = int (length lengths) - 1"
    by (simp add: emptyTree_def)
  with assms(2,3) have k: "k < 65535" by simp
  have "unat (word_of_nat k :: 16 word) = k"
    using k by (simp add: unat_of_nat)
  moreover have "unat invalidNodeValue = 65535" by (simp add: invalidNodeValue_def)
  ultimately show ?thesis using k by (metis nat_less_le)
qed

text \<open>The lengths \<open>[1, 1]\<close> and the node 0 satisfy the hypotheses.\<close>

theorem node_index_not_sentinel_witness:
  "length [1, 1 :: 8 word] \<le> 65536 \<and> (0 :: nat) < 1 \<and> (word_of_nat 0 :: 16 word) \<noteq> invalidNodeValue"
  using node_index_not_sentinel [OF newHuffmanTree_1_1, of 0] by simp



lemma sortedCodes_1_2_2:
  "sortedCodes [1, 2, 2] =
     \<lparr>code = [0, 0x40000000, 0x80000000], codeLen = [2, 2, 1], cvalue = [2, 1, 0]\<rparr>"
  by (simp add: eval_defs)




lemma sortedCodes_3x6:
  "sortedCodes [3, 3, 3, 3, 3, 3] =
     \<lparr>code = [0, 0x20000000, 0x40000000, 0x60000000, 0x80000000, 0xA0000000],
        codeLen = [3, 3, 3, 3, 3, 3], cvalue = [5, 4, 3, 2, 1, 0]\<rparr>"
  by (simp add: eval_defs)

text \<open>
  C3. With the lengths \<open>[3, 3, 3, 3, 3, 3]\<close> the entries 4 and 5 (codes \<open>100\<close> and
  \<open>101\<close>) agree at bit position 1. The call for the range \<open>[4, 6)\<close> at level 1, made
  with four nodes in use, does not go on with \<open>[4, 6)\<close> at level 2: it takes a node and
  calls itself at level 2 with \<open>l = 4\<close> and \<open>r = 2\<close>, and \<open>newHuffmanTree\<close> ends in a
  panic.
\<close>

theorem superfluous_level_not_skipped:
  "\<not> hasBit (sortedCodes [3, 3, 3, 3, 3, 3]) 1 4 \<and>
   \<not> hasBit (sortedCodes [3, 3, 3, 3, 3, 3]) 1 5 \<and>
   buildCalls (sortedCodes [3, 3, 3, 3, 3, 3])
     (\<lparr>nodes = [\<lparr>left = 0, right = 0, leftValue = 0, rightValue = 0\<rparr>,
                \<lparr>left = 2, right = 3, leftValue = 0, rightValue = 0\<rparr>,
                \<lparr>left = 0xffff, right = 0xffff, leftValue = 5, rightValue = 4\<rparr>,
                \<lparr>left = 0xffff, right = 0xffff, leftValue = 3, rightValue = 2\<rparr>,
                \<lparr>left = 0, right = 0, leftValue = 0, rightValue = 0\<rparr>,
                \<lparr>left = 0, right = 0, leftValue = 0, rightValue = 0\<rparr>],
        nextNode = 4\<rparr>, 1, 4, 6)
     (\<lparr>nodes = [\<lparr>left = 0, right = 0, leftValue = 0, rightValue = 0\<rparr>,
                \<lparr>left = 2, right = 3, leftValue = 0, rightValue = 0\<rparr>,
                \<lparr>left = 0xffff, right = 0xffff, leftValue = 5, rightValue = 4\<rparr>,
                \<lparr>left = 0xffff, right = 0xffff, leftValue = 3, rightValue = 2\<rparr>,
                \<lparr>left = 0, right = 0, leftValue = 0, rightValue = 0\<rparr>,
                \<lparr>left = 0, right = 0, leftValue = 0, rightValue = 0\<rparr>],
        nextNode = 5\<rparr>, 2, 4, 2) \<and>
   newHuffmanTree [3, 3, 3, 3, 3, 3] = Inl (Panic ''index out of range'')"
proof -
  let ?codes = "\<lparr>code = [0, 0x20000000, 0x40000000, 0x60000000, 0x80000000, 0xA0000000 :: 32 word],
        codeLen = [3, 3, 3, 3, 3, 3 :: 8 word], cvalue = [5, 4, 3, 2, 1, 0 :: 16 word]\<rparr>"
  let ?t = "\<lparr>nodes = [\<lparr>left = 0, right = 0, leftValue = 0, rightValue = 0\<rparr>,
                \<lparr>left = 2, right = 3, leftValue = 0, rightValue = 0\<rparr>,
                \<lparr>left = 0xffff, right = 0xffff, leftValue = 5, rightValue = 4\<rparr>,
                \<lparr>left = 0xffff, right = 0xffff, leftValue = 3, rightValue = 2\<rparr>,
                \<lparr>left = 0, right = 0, leftValue = 0, rightValue = 0\<rparr>,
                \<lparr>left = 0, right = 0, leftValue = 0, rightValue = 0\<rparr>],
        nextNode = 4\<rparr>"
  have f: "findFirstRight ?codes (shiftLeft32 1 (unat (31 - (1 :: 32 word)))) 4 6 (6 - 4) = Inr 2"
    by (simp add: findFirstRight.simps shiftLeft32_def)
  have "buildCalls ?codes (?t, 1, 4, 6) (?t\<lparr>nextNode := nextNode ?t + 1\<rparr>, 1 + 1, 4, 2)"
    by (rule call235 [OF f]) simp_all
  moreover have "newHuffmanTree [3, 3, 3, 3, 3, 3] = Inl (Panic ''index out of range'')"
    unfolding newHuffmanTree_def sortedCodes_3x6
    by (simp add: eval_defs buildHuffmanNode.simps findFirstRight.simps)
  ultimately show ?thesis
    unfolding sortedCodes_3x6 by (simp add: hasBit_def shiftLeft32_def)
qed

lemma sortedCodes_0_0_32:
  "sortedCodes [0, 0, 32] = \<lparr>code = [0, 1, 1], codeLen = [32, 0, 0], cvalue = [2, 0, 1]\<rparr>"
  by (simp add: eval_defs)

lemma one_and_high_bit: "0 < n \<Longrightarrow> (1 :: 32 word) AND 2 ^ n = 0"
  by (rule bit_eqI) (auto simp: bit_simps)

lemma skip_levels_0_0_32:
  assumes "k \<le> 31"
  shows "(buildCalls \<lparr>code = [0, 1, 1], codeLen = [32, 0, 0], cvalue = [2, 0, 1]\<rparr>)\<^sup>*\<^sup>*
           (t, 0, 0, 3) (t, word_of_nat k, 0, 3)"
  using assms
proof (induction k)
  case 0
  show ?case by simp
next
  case (Suc k)
  let ?codes = "\<lparr>code = [0, 1, 1 :: 32 word], codeLen = [32, 0, 0 :: 8 word], cvalue = [2, 0, 1 :: 16 word]\<rparr>"
  let ?level = "word_of_nat k :: 32 word"
  from Suc.prems have k: "k < 31" by simp
  then have u: "unat (31 - ?level) = 31 - k"
    by (simp add: unat_sub word_le_nat_alt unat_of_nat)
  have test: "shiftLeft32 1 (unat (31 - ?level)) = 2 ^ (31 - k)"
    using k by (simp add: u shiftLeft32_def)
  have one: "(1 :: 32 word) AND 2 ^ (31 - k) = 0"
    using k by (intro one_and_high_bit) simp
  have f: "findFirstRight ?codes (shiftLeft32 1 (unat (31 - ?level))) 0 3 (3 - 0) = Inr 3"
    unfolding test by (simp add: findFirstRight.simps one)
  have ne: "?level \<noteq> 31"
  proof
    assume "?level = 31"
    then have "unat ?level = unat (31 :: 32 word)" by simp
    with k show False by (simp add: unat_of_nat)
  qed
  have "buildCalls ?codes (t, ?level, 0, 3) (t, ?level + 1, 0, 3)"
    by (rule call223 [OF f]) (simp_all add: ne)
  moreover have "?level + 1 = word_of_nat (Suc k)" by simp
  ultimately have "buildCalls ?codes (t, ?level, 0, 3) (t, word_of_nat (Suc k), 0, 3)" by simp
  with Suc.IH k show ?case by (meson less_imp_le rtranclp.rtrancl_into_rtrancl)
qed

text \<open>
  C7. With the lengths \<open>[0, 0, 32]\<close> the chain of recursive calls from the first call
  reaches a call at level 32, for the range \<open>[1, 3)\<close> of two equal codes, and
  \<open>newHuffmanTree\<close> returns a tree: the level is not capped at 31 and the calls are nested
  33 deep.
\<close>

theorem recursion_passes_level_31:
  "(buildCalls (sortedCodes [0, 0, 32]))\<^sup>*\<^sup>*
     (emptyTree 3, 0, 0, 3)
     (\<lparr>nodes = [\<lparr>left = 0xffff, right = 0, leftValue = 2, rightValue = 0\<rparr>,
                \<lparr>left = 0, right = 0, leftValue = 0, rightValue = 0\<rparr>,
                \<lparr>left = 0, right = 0, leftValue = 0, rightValue = 0\<rparr>],
        nextNode = 1\<rparr>, 32, 1, 3) \<and>
   newHuffmanTree [0, 0, 32] =
     Inr \<lparr>nodes = [\<lparr>left = 0xffff, right = 1, leftValue = 2, rightValue = 0\<rparr>,
                    \<lparr>left = 0xffff, right = 0xffff, leftValue = 0, rightValue = 1\<rparr>,
                    \<lparr>left = 0, right = 0, leftValue = 0, rightValue = 0\<rparr>],
           nextNode = 2\<rparr>"
proof -
  let ?codes = "\<lparr>code = [0, 1, 1 :: 32 word], codeLen = [32, 0, 0 :: 8 word], cvalue = [2, 0, 1 :: 16 word]\<rparr>"
  let ?t2 = "\<lparr>nodes = [\<lparr>left = 0xffff, right = 0, leftValue = 2, rightValue = 0\<rparr>,
                \<lparr>left = 0, right = 0, leftValue = 0, rightValue = 0\<rparr>,
                \<lparr>left = 0, right = 0, leftValue = 0, rightValue = 0\<rparr>],
        nextNode = 1\<rparr>"
  have "(buildCalls ?codes)\<^sup>*\<^sup>* (emptyTree 3, 0, 0, 3) (emptyTree 3, word_of_nat 31, 0, 3)"
    by (rule skip_levels_0_0_32) simp
  then have a: "(buildCalls ?codes)\<^sup>*\<^sup>* (emptyTree 3, 0, 0, 3) (emptyTree 3, 31, 0, 3)" by simp
  have f: "findFirstRight ?codes (shiftLeft32 1 (unat (31 - (31 :: 32 word)))) 0 3 (3 - 0) = Inr 1"
    by (simp add: findFirstRight.simps shiftLeft32_def)
  have L: "leftChild (emptyTree 3) ?codes 31 0 1 = Inr ?t2"
    by (simp add: leftChild_def eval_defs)
  have "buildCalls ?codes (emptyTree 3, 31, 0, 3) (?t2, 31 + 1, 1, 3)"
    by (rule call247 [OF f _ _ L]) (simp_all add: emptyTree_def)
  then have b: "buildCalls ?codes (emptyTree 3, 31, 0, 3) (?t2, 32, 1, 3)" by simp
  have "newHuffmanTree [0, 0, 32] =
     Inr \<lparr>nodes = [\<lparr>left = 0xffff, right = 1, leftValue = 2, rightValue = 0\<rparr>,
                    \<lparr>left = 0xffff, right = 0xffff, leftValue = 0, rightValue = 1\<rparr>,
                    \<lparr>left = 0, right = 0, leftValue = 0, rightValue = 0\<rparr>],
           nextNode = 2\<rparr>"
    unfolding newHuffmanTree_def sortedCodes_0_0_32
    by (simp add: eval_defs buildHuffmanNode.simps findFirstRight.simps)
  with a b show ?thesis
    unfolding sortedCodes_0_0_32 by (meson rtranclp.rtrancl_into_rtrancl)
qed

lemma sortedCodes_0_0_1:
  "sortedCodes [0, 0, 1] =
     \<lparr>code = [0, 0x80000000, 0x80000000], codeLen = [1, 0, 0], cvalue = [2, 0, 1]\<rparr>"
  by (simp add: eval_defs)

text \<open>
  C6. The lengths \<open>[0, 0, 1]\<close> give the symbols 0 and 1 the same 32-bit code
  \<open>0x80000000\<close>, and \<open>newHuffmanTree\<close> returns a tree, with the two symbols as the two
  leaves of node 1, instead of the error \<open>equal symbols in Huffman tree\<close>.
\<close>

theorem equal_codes_accepted:
  "codeOf (sortedCodes [0, 0, 1]) 0 = Some (0x80000000, 0) \<and>
   codeOf (sortedCodes [0, 0, 1]) 1 = Some (0x80000000, 0) \<and>
   newHuffmanTree [0, 0, 1] =
     Inr \<lparr>nodes =
            [\<lparr>left = 0xffff, right = 1, leftValue = 2, rightValue = 0\<rparr>,
             \<lparr>left = 0xffff, right = 0xffff, leftValue = 0, rightValue = 1\<rparr>,
             \<lparr>left = 0, right = 0, leftValue = 0, rightValue = 0\<rparr>],
           nextNode = 2\<rparr>"
proof -
  have "newHuffmanTree [0, 0, 1] =
     Inr \<lparr>nodes =
            [\<lparr>left = 0xffff, right = 1, leftValue = 2, rightValue = 0\<rparr>,
             \<lparr>left = 0xffff, right = 0xffff, leftValue = 0, rightValue = 1\<rparr>,
             \<lparr>left = 0, right = 0, leftValue = 0, rightValue = 0\<rparr>],
           nextNode = 2\<rparr>"
    unfolding newHuffmanTree_def sortedCodes_0_0_1
    by (simp add: eval_defs buildHuffmanNode.simps findFirstRight.simps)
  then show ?thesis
    by (simp add: sortedCodes_0_0_1 codeOf_def)
qed

end
